theory Spec2Isabelle
  imports Complex_Main
begin

section \<open>Data model (src/types/index.ts)\<close>

text \<open>
  JavaScript numbers are modelled as real numbers: rounding, NaN and the infinities of
  IEEE doubles are outside the model. The optional field \<open>meta\<close> is never read by the
  geometric core and is left out.
\<close>

record Furniture =
  fid :: string
  fname :: string
  position :: "real \<times> real \<times> real"
  fsize :: "real \<times> real \<times> real"
  fcolor :: string
  rotation :: "real option"
  elevation :: "real option"

section \<open>Collision engine (utils/collision)\<close>

text \<open>The nullish coalescing \<open>v ?? 0\<close>.\<close>

definition nullish0 :: "real option \<Rightarrow> real" where
  "nullish0 v = (case v of None \<Rightarrow> 0 | Some r \<Rightarrow> r)"

text \<open>\<open>getFootprint\<close>: the four corners of the box in the XZ plane, rotated by the yaw.\<close>

definition getFootprint :: "Furniture \<Rightarrow> (real \<times> real) list" where
  "getFootprint f =
     (case fsize f of (w, _, d) \<Rightarrow>
      case position f of (px, _, pz) \<Rightarrow>
        let rot = nullish0 (rotation f);
            c = cos rot;
            s = sin rot;
            hw = w / 2;
            hd = d / 2
        in map (\<lambda>(lx, lz). (px + lx * c - lz * s, pz + lx * s + lz * c))
             [(- hw, - hd), (hw, - hd), (hw, hd), (- hw, hd)])"

text \<open>
  \<open>project\<close>: \<open>[Math.min(...dots), Math.max(...dots)]\<close>. For an empty point list
  JavaScript yields \<open>[Infinity, -Infinity]\<close>, which is \<open>None\<close> here.
\<close>

definition project :: "(real \<times> real) list \<Rightarrow> real \<Rightarrow> real \<Rightarrow> (real \<times> real) option" where
  "project pts nx ny =
     (case map (\<lambda>(x, y). x * nx + y * ny) pts of
        [] \<Rightarrow> None
      | d # ds \<Rightarrow> Some (fold min ds d, fold max ds d))"

text \<open>
  The normal of the edge from vertex \<open>i\<close> to vertex \<open>(i + 1) % poly.length\<close>. The loop of
  \<open>sat2D\<close> only uses indices below \<open>poly.length\<close>.
\<close>

definition edge_normal :: "(real \<times> real) list \<Rightarrow> nat \<Rightarrow> real \<times> real" where
  "edge_normal poly i =
     (let j = (i + 1) mod length poly;
          ex = fst (poly ! j) - fst (poly ! i);
          ey = snd (poly ! j) - snd (poly ! i)
      in (- ey, ex))"

text \<open>
  The test \<open>maxA <= minB || maxB <= minA\<close> on one axis. With an empty polygon one of the
  maxima is \<open>-Infinity\<close> and the test is true.
\<close>

definition separated :: "(real \<times> real) list \<Rightarrow> (real \<times> real) list \<Rightarrow> real \<times> real \<Rightarrow> bool" where
  "separated a b n =
     (case n of (nx, ny) \<Rightarrow>
      case (project a nx ny, project b nx ny) of
        (Some (minA, maxA), Some (minB, maxB)) \<Rightarrow> maxA \<le> minB \<or> maxB \<le> minA
      | _ \<Rightarrow> True)"

text \<open>The inner loop of \<open>sat2D\<close> over the edges of \<open>poly\<close>, leaving at the first separating axis.\<close>

fun sat_edges :: "(real \<times> real) list \<Rightarrow> (real \<times> real) list \<Rightarrow> (real \<times> real) list \<Rightarrow> nat list \<Rightarrow> bool" where
  "sat_edges a b poly [] = True"
| "sat_edges a b poly (i # is) =
     (if separated a b (edge_normal poly i) then False else sat_edges a b poly is)"

definition sat2D :: "(real \<times> real) list \<Rightarrow> (real \<times> real) list \<Rightarrow> bool" where
  "sat2D a b =
     (if \<not> sat_edges a b a [0..<length a] then False
      else sat_edges a b b [0..<length b])"

definition checkCollision :: "Furniture \<Rightarrow> Furniture \<Rightarrow> bool" where
  "checkCollision a b =
     (let aBot = nullish0 (elevation a);
          aTop = aBot + fst (snd (fsize a));
          bBot = nullish0 (elevation b);
          bTop = bBot + fst (snd (fsize b))
      in if aBot \<ge> bTop \<or> bBot \<ge> aTop then False
         else sat2D (getFootprint a) (getFootprint b))"

text \<open>\<open>getCollidingIds\<close>: the two nested index loops, adding both ids of a colliding pair.\<close>

definition getCollidingIds :: "Furniture list \<Rightarrow> string set" where
  "getCollidingIds furniture =
     fold (\<lambda>i ids.
        fold (\<lambda>j ids.
          if checkCollision (furniture ! i) (furniture ! j)
          then insert (fid (furniture ! j)) (insert (fid (furniture ! i)) ids)
          else ids)
        [i + 1..<length furniture] ids)
      [0..<length furniture] {}"

section \<open>Wall snapping (utils/wallSnap)\<close>

record Room =
  rid :: string
  rname :: string
  rx :: real
  ry :: real
  rwidth :: real
  rheight :: real
  rcolor :: string

datatype WallAxis = H | V

record CanvasPoint =
  canvasX :: real
  canvasY :: real

record WallHit = CanvasPoint +
  wallAxis :: WallAxis

record Cursor =
  cur_cx :: real
  cur_cy :: real

record Seg =
  sx1 :: real
  sy1 :: real
  sx2 :: real
  sy2 :: real
  saxis :: WallAxis

definition columnEdgeCenter :: "Cursor \<Rightarrow> WallHit \<Rightarrow> real \<Rightarrow> CanvasPoint" where
  "columnEdgeCenter cursor wall depthPx =
     (let dh = depthPx / 2
      in if wallAxis wall = H then
           (let offsetY = (if cur_cy cursor \<ge> canvasY wall then dh else - dh)
            in \<lparr>canvasX = canvasX wall, canvasY = canvasY wall + offsetY\<rparr>)
         else
           (let offsetX = (if cur_cx cursor \<ge> canvasX wall then dh else - dh)
            in \<lparr>canvasX = canvasX wall + offsetX, canvasY = canvasY wall\<rparr>))"

text \<open>The four boundary segments of a room, in the order of the source.\<close>

definition segs :: "Room \<Rightarrow> Seg list" where
  "segs room =
     [\<lparr>sx1 = rx room, sy1 = ry room, sx2 = rx room + rwidth room, sy2 = ry room, saxis = H\<rparr>,
      \<lparr>sx1 = rx room, sy1 = ry room + rheight room, sx2 = rx room + rwidth room,
       sy2 = ry room + rheight room, saxis = H\<rparr>,
      \<lparr>sx1 = rx room, sy1 = ry room, sx2 = rx room, sy2 = ry room + rheight room, saxis = V\<rparr>,
      \<lparr>sx1 = rx room + rwidth room, sy1 = ry room, sx2 = rx room + rwidth room,
       sy2 = ry room + rheight room, saxis = V\<rparr>]"

text \<open>\<open>Math.hypot\<close> of two arguments.\<close>

definition hypot :: "real \<Rightarrow> real \<Rightarrow> real" where
  "hypot a b = sqrt (a * a + b * b)"

definition lenSq :: "Seg \<Rightarrow> real" where
  "lenSq seg = (sx2 seg - sx1 seg) * (sx2 seg - sx1 seg) + (sy2 seg - sy1 seg) * (sy2 seg - sy1 seg)"

text \<open>The clamped projection parameter \<open>t\<close> of the point on a segment.\<close>

definition seg_t :: "real \<Rightarrow> real \<Rightarrow> Seg \<Rightarrow> real" where
  "seg_t px py seg =
     max 0.05 (min 0.95
       (((px - sx1 seg) * (sx2 seg - sx1 seg) + (py - sy1 seg) * (sy2 seg - sy1 seg)) / lenSq seg))"

definition seg_point :: "real \<Rightarrow> real \<Rightarrow> Seg \<Rightarrow> real \<times> real" where
  "seg_point px py seg =
     (let t = seg_t px py seg
      in (sx1 seg + t * (sx2 seg - sx1 seg), sy1 seg + t * (sy2 seg - sy1 seg)))"

definition seg_dist :: "real \<Rightarrow> real \<Rightarrow> Seg \<Rightarrow> real" where
  "seg_dist px py seg =
     (case seg_point px py seg of (qx, qy) \<Rightarrow> hypot (px - qx) (py - qy))"

text \<open>
  One iteration of the inner loop: the state is the pair \<open>(best, bestDist)\<close>; a segment of
  length zero is skipped (\<open>continue\<close>).
\<close>

definition seg_step :: "real \<Rightarrow> real \<Rightarrow> Seg \<Rightarrow> WallHit option \<times> real \<Rightarrow> WallHit option \<times> real" where
  "seg_step px py seg st =
     (if lenSq seg = 0 then st
      else let d = seg_dist px py seg
           in if d < snd st
              then (Some \<lparr>canvasX = fst (seg_point px py seg),
                          canvasY = snd (seg_point px py seg),
                          wallAxis = saxis seg\<rparr>, d)
              else st)"

definition findNearestWall :: "Room list \<Rightarrow> real \<Rightarrow> real \<Rightarrow> real \<Rightarrow> WallHit option" where
  "findNearestWall rooms px py snapDist =
     fst (fold (\<lambda>room st. fold (seg_step px py) (segs room) st) rooms (None, snapDist))"

text \<open>The default value of the parameter \<open>snapDist\<close>.\<close>

definition findNearestWall_default :: "Room list \<Rightarrow> real \<Rightarrow> real \<Rightarrow> WallHit option" where
  "findNearestWall_default rooms px py = findNearestWall rooms px py 14"

section \<open>Raster floor-plan analyzer (utils/floorPlanAnalyzer.ts)\<close>

definition ROOM_COLORS :: "string list" where
  "ROOM_COLORS = [''#4a90d9'', ''#7ed321'', ''#f5a623'', ''#d0021b'',
                  ''#9013fe'', ''#50e3c2'', ''#b8e986'', ''#f8e71c'']"

definition WALL_THRESHOLD :: real where "WALL_THRESHOLD = 200"
definition DILATE_RADIUS :: int where "DILATE_RADIUS = 6"
definition MIN_AREA_RATIO :: real where "MIN_AREA_RATIO = 0.008"

definition OPEN :: nat where "OPEN = 1"
definition WALL :: nat where "WALL = 0"
definition EXTERIOR :: nat where "EXTERIOR = 2"

text \<open>
  Typed arrays (\<open>Uint8Array\<close>, \<open>Uint8ClampedArray\<close>) are lists of numbers. A read outside
  the array yields \<open>undefined\<close> (\<open>None\<close>), a write outside the array is ignored. Only the
  values 0, 1 and 2 are ever written.
\<close>

definition arr_get :: "nat list \<Rightarrow> int \<Rightarrow> nat option" where
  "arr_get a i = (if 0 \<le> i \<and> i < int (length a) then Some (a ! nat i) else None)"

definition arr_set :: "nat list \<Rightarrow> int \<Rightarrow> nat \<Rightarrow> nat list" where
  "arr_set a i v = (if 0 \<le> i \<and> i < int (length a) then a[nat i := v] else a)"

text \<open>
  Step 1, one pixel: the luma of the pixel against the threshold. A channel read outside
  the buffer would make the luma \<open>NaN\<close> and the comparison false.
\<close>

definition binarize_px :: "nat list \<Rightarrow> nat \<Rightarrow> nat" where
  "binarize_px data i =
     (case (arr_get data (int i * 4), arr_get data (int i * 4 + 1), arr_get data (int i * 4 + 2)) of
        (Some r, Some g, Some b) \<Rightarrow>
          (let gray = 0.299 * real r + 0.587 * real g + 0.114 * real b
           in if gray \<ge> WALL_THRESHOLD then OPEN else WALL)
      | _ \<Rightarrow> WALL)"

definition binarize :: "nat \<Rightarrow> nat \<Rightarrow> nat list \<Rightarrow> nat list" where
  "binarize w h data = map (binarize_px data) [0..<w * h]"

text \<open>The polarity step: fewer than 30% open pixels inverts the grid.\<close>

definition polarity :: "nat \<Rightarrow> nat \<Rightarrow> nat list \<Rightarrow> nat list" where
  "polarity w h binary =
     (let openCount = sum_list binary
      in if real openCount < real (w * h) * 0.3
         then map (\<lambda>v. if v = OPEN then WALL else OPEN) binary
         else binary)"

text \<open>\<open>dilateWalls\<close>: the body of the two outer loops for the pixel \<open>(x, y)\<close>, then the loops.\<close>

definition dilate_at :: "nat list \<Rightarrow> nat \<Rightarrow> nat \<Rightarrow> int \<Rightarrow> int \<Rightarrow> int \<Rightarrow> nat list \<Rightarrow> nat list" where
  "dilate_at src w h radius y x dst =
     (if arr_get src (y * int w + x) \<noteq> Some WALL then dst
      else
        let y0 = max 0 (y - radius);
            y1 = min (int h - 1) (y + radius);
            x0 = max 0 (x - radius);
            x1 = min (int w - 1) (x + radius)
        in fold (\<lambda>ny dst. fold (\<lambda>nx dst. arr_set dst (ny * int w + nx) WALL) [x0..x1] dst)
             [y0..y1] dst)"

definition dilateWalls :: "nat list \<Rightarrow> nat \<Rightarrow> nat \<Rightarrow> int \<Rightarrow> nat list" where
  "dilateWalls src w h radius =
     fold (\<lambda>y dst. fold (\<lambda>x dst. dilate_at src w h radius y x dst) [0..int w - 1] dst)
       [0..int h - 1] src"

text \<open>Step 3: the state of the flood fill is the pair of \<open>labeled\<close> and \<open>queue\<close>.\<close>

definition enqueueEdge :: "nat \<Rightarrow> int \<Rightarrow> int \<Rightarrow> nat list \<times> nat list \<Rightarrow> nat list \<times> nat list" where
  "enqueueEdge w ex ey st =
     (case st of (labeled, queue) \<Rightarrow>
        let idx = ey * int w + ex
        in if arr_get labeled idx = Some OPEN
           then (arr_set labeled idx EXTERIOR, queue @ [nat idx])
           else (labeled, queue))"

definition seed_edges :: "nat \<Rightarrow> nat \<Rightarrow> nat list \<Rightarrow> nat list \<times> nat list" where
  "seed_edges w h dilated =
     (let st1 = fold (\<lambda>ex st. enqueueEdge w ex (int h - 1) (enqueueEdge w ex 0 st))
                  [0..int w - 1] (dilated, [])
      in fold (\<lambda>ey st. enqueueEdge w (int w - 1) ey (enqueueEdge w 0 ey st))
           [1..int h - 2] st1)"

definition directions :: "(int \<times> int) list" where
  "directions = [(-1, 0), (1, 0), (0, -1), (0, 1)]"

text \<open>The body of the loop over the four directions in the flood fill.\<close>

definition fill_neighbour ::
  "nat \<Rightarrow> nat \<Rightarrow> int \<Rightarrow> int \<Rightarrow> int \<times> int \<Rightarrow> nat list \<times> nat list \<Rightarrow> nat list \<times> nat list" where
  "fill_neighbour w h px py d st =
     (case d of (dx, dy) \<Rightarrow> case st of (labeled, queue) \<Rightarrow>
        let nx = px + dx;
            ny = py + dy
        in if nx < 0 \<or> nx \<ge> int w \<or> ny < 0 \<or> ny \<ge> int h then (labeled, queue)
           else
             let nidx = ny * int w + nx
             in if arr_get labeled nidx = Some OPEN
                then (arr_set labeled nidx EXTERIOR, queue @ [nat nidx])
                else (labeled, queue))"

definition count_open :: "nat list \<Rightarrow> nat" where
  "count_open labeled = length (filter (\<lambda>v. v = OPEN) labeled)"

text \<open>
  The flood fill terminates: every push turns one open cell into an exterior cell, so the
  number of open cells plus the unread part of the queue decreases with every iteration.
\<close>

lemma count_open_update:
  "i < length l \<Longrightarrow> l ! i = OPEN \<Longrightarrow> v \<noteq> OPEN \<Longrightarrow> Suc (count_open (l[i := v])) = count_open l"
proof (induction l arbitrary: i)
  case Nil
  then show ?case by simp
next
  case (Cons a l)
  then show ?case by (cases i) (auto simp: count_open_def)
qed

lemma count_open_arr_set:
  "arr_get l i = Some OPEN \<Longrightarrow> Suc (count_open (arr_set l i EXTERIOR)) = count_open l"
  using count_open_update[of "nat i" l EXTERIOR]
  by (auto simp: arr_get_def arr_set_def EXTERIOR_def OPEN_def split: if_splits)

lemma fill_neighbour_measure:
  "fill_neighbour w h px py d (l, q) = (l', q') \<Longrightarrow>
     count_open l' + length q' = count_open l + length q \<and> length q \<le> length q'"
  by (cases d)
     (auto simp: fill_neighbour_def Let_def split: if_splits dest: count_open_arr_set)

lemma fold_fill_neighbour_measure:
  "fold (fill_neighbour w h px py) ds (l, q) = (l', q') \<Longrightarrow>
     count_open l' + length q' = count_open l + length q \<and> length q \<le> length q'"
proof (induction ds arbitrary: l q)
  case Nil
  then show ?case by simp
next
  case (Cons d ds)
  obtain l1 q1 where s: "fill_neighbour w h px py d (l, q) = (l1, q1)" by (cases "fill_neighbour w h px py d (l, q)")
  from Cons.prems have "fold (fill_neighbour w h px py) ds (l1, q1) = (l', q')" by (simp add: s)
  from Cons.IH[OF this] fill_neighbour_measure[OF s] show ?case by simp
qed

text \<open>The breadth-first loop \<open>while (head < queue.length)\<close> of step 3.\<close>

function flood :: "nat \<Rightarrow> nat \<Rightarrow> nat list \<Rightarrow> nat list \<Rightarrow> nat \<Rightarrow> nat list" where
  "flood w h labeled queue head =
     (if head < length queue then
        (let curr = queue ! head;
             px = int (curr mod w);
             py = int (curr div w);
             st = fold (fill_neighbour w h px py) directions (labeled, queue)
         in flood w h (fst st) (snd st) (head + 1))
      else labeled)"
  by pat_completeness auto
termination
proof (relation "measure (\<lambda>(w, h, labeled, queue, head). count_open labeled + length queue - head)")
  show "wf (measure (\<lambda>(w, h, labeled, queue, head). count_open labeled + length queue - head))"
    by simp
next
  fix w h :: nat and labeled queue :: "nat list" and head :: nat and curr px py st
  assume hd: "head < length queue"
    and st: "st = fold (fill_neighbour w h px py) directions (labeled, queue)"
  obtain l' q' where s: "fold (fill_neighbour w h px py) directions (labeled, queue) = (l', q')"
    by (cases "fold (fill_neighbour w h px py) directions (labeled, queue)")
  from fold_fill_neighbour_measure[OF s] hd
  show "((w, h, fst st, snd st, head + 1), (w, h, labeled, queue, head))
        \<in> measure (\<lambda>(w, h, labeled, queue, head). count_open labeled + length queue - head)"
    by (simp add: st s)
qed

definition floodFill :: "nat \<Rightarrow> nat \<Rightarrow> nat list \<Rightarrow> nat list" where
  "floodFill w h dilated =
     (case seed_edges w h dilated of (labeled, queue) \<Rightarrow> flood w h labeled queue 0)"

text \<open>
  Step 4. The state of the search of one connected component. The search is a partial
  function: \<open>None\<close> stands for a loop that does not return.
\<close>

record region =
  visited :: "nat list"
  regionQueue :: "nat list"
  qHead :: nat
  minX :: int
  maxX :: int
  minY :: int
  maxY :: int
  area :: nat

text \<open>\<open>!visited[i]\<close>: true for \<open>undefined\<close> and for 0.\<close>

definition falsy :: "nat option \<Rightarrow> bool" where
  "falsy v = (v = None \<or> v = Some 0)"

definition region_neighbour ::
  "nat \<Rightarrow> nat \<Rightarrow> nat list \<Rightarrow> int \<Rightarrow> int \<Rightarrow> int \<times> int \<Rightarrow> nat list \<times> nat list \<Rightarrow> nat list \<times> nat list" where
  "region_neighbour w h labeled px py d st =
     (case d of (dx, dy) \<Rightarrow> case st of (vis, queue) \<Rightarrow>
        let nx = px + dx;
            ny = py + dy
        in if nx < 0 \<or> nx \<ge> int w \<or> ny < 0 \<or> ny \<ge> int h then (vis, queue)
           else
             let nidx = ny * int w + nx
             in if arr_get labeled nidx = Some OPEN \<and> falsy (arr_get vis nidx)
                then (arr_set vis nidx 1, queue @ [nat nidx])
                else (vis, queue))"

partial_function (option) region_bfs :: "nat \<Rightarrow> nat \<Rightarrow> nat list \<Rightarrow> region \<Rightarrow> region option" where
  "region_bfs w h labeled r =
     (if qHead r < length (regionQueue r) then
        (let curr = regionQueue r ! qHead r;
             px = int (curr mod w);
             py = int (curr div w);
             st = fold (region_neighbour w h labeled px py) directions (visited r, regionQueue r)
         in region_bfs w h labeled
              \<lparr>visited = fst st, regionQueue = snd st, qHead = qHead r + 1,
               minX = (if px < minX r then px else minX r),
               maxX = (if px > maxX r then px else maxX r),
               minY = (if py < minY r then py else minY r),
               maxY = (if py > maxY r then py else maxY r),
               area = area r + 1\<rparr>)
      else Some r)"

text \<open>
  The room name is the two characters of the source (in UTF-8) followed by the decimal
  number of the room.
\<close>

fun decimal :: "nat \<Rightarrow> string" where
  "decimal n =
     (if n < 10 then [char_of (48 + n)]
      else decimal (n div 10) @ [char_of (48 + n mod 10)])"

definition room_name :: "nat \<Rightarrow> string" where
  "room_name n = [CHR 0xE9, CHR 0x83, CHR 0xA8, CHR 0xE5, CHR 0xB1, CHR 0x8B] @ decimal n"

text \<open>A loop whose body may fail to return.\<close>

fun fold_option :: "('a \<Rightarrow> 's \<Rightarrow> 's option) \<Rightarrow> 'a list \<Rightarrow> 's \<Rightarrow> 's option" where
  "fold_option f [] s = Some s"
| "fold_option f (a # as) s = (case f a s of None \<Rightarrow> None | Some s' \<Rightarrow> fold_option f as s')"

text \<open>
  The body of the two scanning loops for the start pixel \<open>(startX, startY)\<close>; the state is
  \<open>(visited, rooms, colorIdx)\<close>. \<open>randomUUID k\<close> is the value of the \<open>k\<close>-th call of
  \<open>crypto.randomUUID()\<close>.
\<close>

definition scan_start ::
  "(nat \<Rightarrow> string) \<Rightarrow> nat \<Rightarrow> nat \<Rightarrow> real \<Rightarrow> real \<Rightarrow> nat list \<Rightarrow> int \<Rightarrow> int
     \<Rightarrow> nat list \<times> Room list \<times> nat \<Rightarrow> (nat list \<times> Room list \<times> nat) option" where
  "scan_start randomUUID w h canvasWidth canvasHeight labeled startY startX st =
     (case st of (vis, rooms, colorIdx) \<Rightarrow>
        let startIdx = startY * int w + startX
        in if arr_get labeled startIdx \<noteq> Some OPEN \<or> \<not> falsy (arr_get vis startIdx)
           then Some (vis, rooms, colorIdx)
           else
             (case region_bfs w h labeled
                     \<lparr>visited = arr_set vis startIdx 1, regionQueue = [nat startIdx], qHead = 0,
                      minX = startX, maxX = startX, minY = startY, maxY = startY, area = 0\<rparr> of
                None \<Rightarrow> None
              | Some r \<Rightarrow>
                  if real (area r) < real (w * h) * MIN_AREA_RATIO
                  then Some (visited r, rooms, colorIdx)
                  else
                    let scaleX = canvasWidth / real w;
                        scaleY = canvasHeight / real h
                    in Some (visited r,
                             rooms @ [\<lparr>rid = randomUUID (length rooms),
                                       rname = room_name (length rooms + 1),
                                       rx = real_of_int (minX r) * scaleX,
                                       ry = real_of_int (minY r) * scaleY,
                                       rwidth = real_of_int (maxX r - minX r) * scaleX,
                                       rheight = real_of_int (maxY r - minY r) * scaleY,
                                       rcolor = ROOM_COLORS ! (colorIdx mod length ROOM_COLORS)\<rparr>],
                             colorIdx + 1)))"

definition find_rooms ::
  "(nat \<Rightarrow> string) \<Rightarrow> nat \<Rightarrow> nat \<Rightarrow> real \<Rightarrow> real \<Rightarrow> nat list \<Rightarrow> Room list option" where
  "find_rooms randomUUID w h canvasWidth canvasHeight labeled =
     map_option (\<lambda>st. fst (snd st))
       (fold_option
          (\<lambda>startY st.
             fold_option (scan_start randomUUID w h canvasWidth canvasHeight labeled startY)
               [1..int w - 2] st)
          [1..int h - 2] (replicate (w * h) 0, [], 0))"

text \<open>
  \<open>analyzeFloorPlan\<close> from the pixel buffer on: \<open>w\<close>, \<open>h\<close> and \<open>data\<close> are the size and the
  RGBA bytes that \<open>getImageData\<close> returns for the downscaled canvas (the browser's
  resampling in step 0 is outside the model).
\<close>

definition analyzeFloorPlan ::
  "(nat \<Rightarrow> string) \<Rightarrow> nat \<Rightarrow> nat \<Rightarrow> nat list \<Rightarrow> real \<Rightarrow> real \<Rightarrow> Room list option" where
  "analyzeFloorPlan randomUUID w h data canvasWidth canvasHeight =
     (let binary = polarity w h (binarize w h data);
          dilated = dilateWalls binary w h DILATE_RADIUS;
          labeled = floodFill w h dilated
      in find_rooms randomUUID w h canvasWidth canvasHeight labeled)"

section \<open>Specification-side definitions and concrete inputs\<close>

text \<open>
  The specification of the collision test is written from its words, without the functions
  of the source. A furniture box has the vertical extent from \<open>elevation\<close> (default 0) to
  \<open>elevation + size[1]\<close>.
\<close>

definition bottom :: "Furniture \<Rightarrow> real" where
  "bottom f = (case elevation f of None \<Rightarrow> 0 | Some e \<Rightarrow> e)"

definition top_of :: "Furniture \<Rightarrow> real" where
  "top_of f = bottom f + fst (snd (fsize f))"























text \<open>
  The axes that the loops of \<open>sat2D\<close> visit and the projections that \<open>project\<close> computes, as
  sets; they are used to unfold the loops.
\<close>

definition dots :: "(real \<times> real) list \<Rightarrow> real \<times> real \<Rightarrow> real set" where
  "dots pts n = (\<lambda>p. fst p * fst n + snd p * snd n) ` set pts"

definition edge_normals :: "(real \<times> real) list \<Rightarrow> (real \<times> real) set" where
  "edge_normals poly = edge_normal poly ` {0..<length poly}"


text \<open>The boxes of the concrete scenarios: size \<open>(2, 1, 2)\<close>, no rotation.\<close>

definition boxA :: Furniture where
  "boxA = \<lparr>fid = ''a'', fname = ''A'', position = (0, 0, 0), fsize = (2, 1, 2),
           fcolor = ''#888888'', rotation = Some 0, elevation = Some 0\<rparr>"

definition boxAt :: "string \<Rightarrow> real \<Rightarrow> real \<Rightarrow> Furniture" where
  "boxAt i px el = \<lparr>fid = i, fname = ''B'', position = (px, 0, 0), fsize = (2, 1, 2),
           fcolor = ''#888888'', rotation = Some 0, elevation = Some el\<rparr>"




text \<open>A box with \<open>position[1]\<close> replaced and every other field kept.\<close>

definition with_position_y :: "real \<Rightarrow> Furniture \<Rightarrow> Furniture" where
  "with_position_y v f =
     (case position f of (px, _, pz) \<Rightarrow> f\<lparr>position := (px, v, pz)\<rparr>)"

text \<open>The wall hit that the inner loop of \<open>findNearestWall\<close> stores for a segment.\<close>

definition hit_of :: "real \<Rightarrow> real \<Rightarrow> Seg \<Rightarrow> WallHit" where
  "hit_of px py seg =
     \<lparr>canvasX = fst (seg_point px py seg), canvasY = snd (seg_point px py seg),
      wallAxis = saxis seg\<rparr>"


definition all_segs :: "Room list \<Rightarrow> Seg list" where
  "all_segs rooms = concat (map segs rooms)"

text \<open>The room of the concrete scenario: \<open>(x=0, y=0, w=100, h=100)\<close>.\<close>

definition room0 :: Room where
  "room0 = \<lparr>rid = ''r0'', rname = ''Room 1'', rx = 0, ry = 0, rwidth = 100, rheight = 100,
            rcolor = ''#4a90d9''\<rparr>"



definition boxes3 :: "Furniture list" where
  "boxes3 = [boxA, boxAt ''b'' 1 0, boxAt ''c'' 5 0]"

subsection \<open>Grids, images and the concrete inputs of the analyzer\<close>

text \<open>
  An occupancy grid given by a function of the coordinates, and an RGBA pixel buffer given
  by a function from the coordinates to the four channels.
\<close>

definition grid :: "nat \<Rightarrow> nat \<Rightarrow> (int \<Rightarrow> int \<Rightarrow> nat) \<Rightarrow> nat list" where
  "grid w h f = map (\<lambda>i. f (int (i mod w)) (int (i div w))) [0..<w * h]"

definition raster :: "nat \<Rightarrow> nat \<Rightarrow> (int \<Rightarrow> int \<Rightarrow> nat \<times> nat \<times> nat \<times> nat) \<Rightarrow> nat list" where
  "raster w h px =
     concat (map (\<lambda>i. case px (int (i mod w)) (int (i div w)) of (r, g, b, a) \<Rightarrow> [r, g, b, a])
               [0..<w * h])"

text \<open>The binarization of one pixel, from its channels.\<close>

definition luma_bin :: "nat \<times> nat \<times> nat \<times> nat \<Rightarrow> nat" where
  "luma_bin c = (case c of (r, g, b, a) \<Rightarrow>
     if 0.299 * real r + 0.587 * real g + 0.114 * real b \<ge> WALL_THRESHOLD then OPEN else WALL)"

text \<open>
  A wall pixel of the grid lies within the square of the given radius around \<open>(x, y)\<close>.
\<close>

definition near_wall :: "nat \<Rightarrow> nat \<Rightarrow> (int \<Rightarrow> int \<Rightarrow> nat) \<Rightarrow> int \<Rightarrow> int \<Rightarrow> int \<Rightarrow> bool" where
  "near_wall w h f r x y =
     (\<exists>x' y'. 0 \<le> x' \<and> x' < int w \<and> 0 \<le> y' \<and> y' < int h \<and> f x' y' = WALL
         \<and> \<bar>x' - x\<bar> \<le> r \<and> \<bar>y' - y\<bar> \<le> r)"

text \<open>
  The pixel \<open>(x, y)\<close> of the source is a wall and the cell with index \<open>k\<close> lies in the
  rectangle that \<open>dilateWalls\<close> fills for it.
\<close>

definition in_reach :: "nat list \<Rightarrow> nat \<Rightarrow> nat \<Rightarrow> int \<Rightarrow> int \<Rightarrow> int \<Rightarrow> nat \<Rightarrow> bool" where
  "in_reach src w h radius y x k =
     (arr_get src (y * int w + x) = Some WALL \<and>
      (\<exists>ny \<in> {max 0 (y - radius)..min (int h - 1) (y + radius)}.
       \<exists>nx \<in> {max 0 (x - radius)..min (int w - 1) (x + radius)}. ny * int w + nx = int k))"

text \<open>The common body of \<open>enqueueEdge\<close> and of the neighbour step of the flood fill.\<close>

definition mark :: "nat list \<times> nat list \<Rightarrow> int \<Rightarrow> nat list \<times> nat list" where
  "mark st idx =
     (if arr_get (fst st) idx = Some OPEN
      then (arr_set (fst st) idx EXTERIOR, snd st @ [nat idx])
      else st)"

text \<open>
  The image of the first scenario: 15 by 16 pixels, a black border of one pixel, white
  inside; its binarization and its dilation.
\<close>

definition px15 :: "int \<Rightarrow> int \<Rightarrow> nat \<times> nat \<times> nat \<times> nat" where
  "px15 x y = (if x = 0 \<or> x = 14 \<or> y = 0 \<or> y = 15 then (0, 0, 0, 255) else (255, 255, 255, 255))"

definition f15 :: "int \<Rightarrow> int \<Rightarrow> nat" where
  "f15 x y = (if x = 0 \<or> x = 14 \<or> y = 0 \<or> y = 15 then WALL else OPEN)"

definition g15 :: "int \<Rightarrow> int \<Rightarrow> nat" where
  "g15 x y = (if x = 7 \<and> (y = 7 \<or> y = 8) then OPEN else WALL)"

text \<open>The \<open>visited\<close> array during and after the search of the only component, and the room.\<close>

definition vis15a :: "nat list" where
  "vis15a = arr_set (replicate 240 0) 112 1"

definition vis15 :: "nat list" where
  "vis15 = arr_set vis15a 127 1"

definition room15 :: "(nat \<Rightarrow> string) \<Rightarrow> real \<Rightarrow> real \<Rightarrow> Room" where
  "room15 randomUUID cw ch =
     \<lparr>rid = randomUUID 0, rname = room_name 1, rx = 7 * (cw / 15), ry = 7 * (ch / 16),
      rwidth = 0 * (cw / 15), rheight = 1 * (ch / 16), rcolor = ''#4a90d9''\<rparr>"






text \<open>The \<open>visited\<close> array during the search of the only component, and the room.\<close>

definition vis18a :: "nat list" where
  "vis18a = arr_set (replicate 288 0) 136 1"

definition vis18b :: "nat list" where
  "vis18b = arr_set vis18a 152 1"

definition vis18 :: "nat list" where
  "vis18 = arr_set vis18b 168 1"




definition flip :: "nat \<Rightarrow> nat" where
  "flip v = (if v = OPEN then WALL else OPEN)"








section \<open>Collision engine: properties\<close>

lemma project_Some:
  assumes "pts \<noteq> []"
  shows "project pts nx ny = Some (Min (dots pts (nx, ny)), Max (dots pts (nx, ny)))"
proof -
  obtain p ps where pts: "pts = p # ps" using assms by (cases pts) auto
  define f where "f = (\<lambda>(x, y). x * nx + y * (ny::real))"
  have f: "f = (\<lambda>p. fst p * nx + snd p * ny)" by (auto simp: f_def)
  have "fold min (map f ps) (f p) = Min (set (f p # map f ps))"
    by (simp only: Min.set_eq_fold)
  moreover have "fold max (map f ps) (f p) = Max (set (f p # map f ps))"
    by (simp only: Max.set_eq_fold)
  moreover have "set (f p # map f ps) = dots pts (nx, ny)"
    by (simp add: dots_def pts f)
  ultimately show ?thesis
    by (simp add: project_def pts f_def[symmetric])
qed

lemma project_None: "project [] nx ny = None"
  by (simp add: project_def)

lemma project_eq_None: "project pts nx ny = None \<longleftrightarrow> pts = []"
  by (cases pts) (simp_all add: project_def)

lemma separated_sym: "separated a b n = separated b a n"
  by (cases "a = []"; cases "b = []"; cases n)
     (auto simp: separated_def project_Some project_None)

lemma sat_edges_iff: "sat_edges a b poly is \<longleftrightarrow> (\<forall>i \<in> set is. \<not> separated a b (edge_normal poly i))"
  by (induction "is") auto

lemma sat2D_iff:
  "sat2D a b \<longleftrightarrow> (\<forall>n \<in> edge_normals a \<union> edge_normals b. \<not> separated a b n)"
  by (auto simp: sat2D_def sat_edges_iff edge_normals_def)

lemma sat2D_sym: "sat2D a b = sat2D b a"
  unfolding sat2D_iff using separated_sym by blast

lemma checkCollision_iff:
  "checkCollision a b \<longleftrightarrow>
     bottom a < top_of b \<and> bottom b < top_of a \<and> sat2D (getFootprint a) (getFootprint b)"
  by (auto simp: checkCollision_def Let_def bottom_def top_of_def nullish0_def)

lemma checkCollision_commute: "checkCollision a b = checkCollision b a"
  unfolding checkCollision_iff using sat2D_sym by blast

subsection \<open>C2: symmetry\<close>

text \<open>
  Claim C2. Collision symmetry: \<open>checkCollision a b = checkCollision b a\<close> for every pair of
  furniture boxes.
\<close>

theorem checkCollision_symmetric: "checkCollision a b = checkCollision b a"
  unfolding checkCollision_iff using sat2D_sym by blast


lemma length_getFootprint: "length (getFootprint f) = 4"
  by (simp add: getFootprint_def Let_def split: prod.splits)



subsection \<open>C1: the collision test against its specification\<close>






























subsection \<open>Concrete scenarios\<close>

lemma fp_boxA: "getFootprint boxA = [(-1, -1), (1, -1), (1, 1), (-1, 1)]"
  by (simp add: getFootprint_def boxA_def nullish0_def)

lemma fp_boxAt: "getFootprint (boxAt i px el) = [(px - 1, -1), (px + 1, -1), (px + 1, 1), (px - 1, 1)]"
  by (simp add: getFootprint_def boxAt_def nullish0_def)

lemma sat_1: "sat2D (getFootprint boxA) (getFootprint (boxAt i 1 e))"
  unfolding fp_boxA fp_boxAt
  by code_simp

lemma collide_1: "checkCollision boxA (boxAt ''b'' 1 0)"
  using sat_1 by (simp add: checkCollision_iff bottom_def top_of_def nullish0_def boxA_def boxAt_def)

lemma sat_3: "\<not> sat2D (getFootprint boxA) (getFootprint (boxAt i 3 e))"
  unfolding fp_boxA fp_boxAt
  by code_simp

lemma collide_3: "\<not> checkCollision boxA (boxAt ''b'' 3 0)"
  using sat_3 by (simp add: checkCollision_iff)




subsection \<open>C3: the set of colliding ids\<close>

lemma fold_inner:
  "fold (\<lambda>j ids. if P j then insert (g j) (insert c ids) else ids) js ids =
     ids \<union> (\<Union>j \<in> {j \<in> set js. P j}. {g j, c})"
  by (induction js arbitrary: ids) auto

lemma fold_outer:
  "fold (\<lambda>i ids. fold (\<lambda>j ids. if P i j then insert (g j) (insert (g i) ids) else ids) (js i) ids) is ids =
     ids \<union> (\<Union>i \<in> set is. \<Union>j \<in> {j \<in> set (js i). P i j}. {g j, g i})"
  by (induction "is" arbitrary: ids) (auto simp: fold_inner)

lemma mem_getCollidingIds:
  "s \<in> getCollidingIds fs \<longleftrightarrow>
     (\<exists>i j. i < j \<and> j < length fs \<and> checkCollision (fs ! i) (fs ! j)
            \<and> (s = fid (fs ! i) \<or> s = fid (fs ! j)))"
  (is "?L \<longleftrightarrow> ?R")
proof
  assume ?L
  then show ?R
    unfolding getCollidingIds_def fold_outer by (auto simp: Suc_le_eq)
next
  assume ?R
  then obtain i j where ij: "i < j" "j < length fs" "checkCollision (fs ! i) (fs ! j)"
    "s = fid (fs ! i) \<or> s = fid (fs ! j)" by blast
  then have "i \<in> set [0..<length fs]" "j \<in> {j \<in> set [i + 1..<length fs]. checkCollision (fs ! i) (fs ! j)}"
    by auto
  moreover have "s \<in> {fid (fs ! j), fid (fs ! i)}" using ij by auto
  ultimately show ?L
    unfolding getCollidingIds_def fold_outer by blast
qed

text \<open>
  Claim C3. For a furniture list with pairwise distinct ids and an item \<open>x\<close> of the list,
  \<open>x.id\<close> is in \<open>getCollidingIds\<close> if and only if another item \<open>y\<close> of the list collides
  with \<open>x\<close>.
\<close>

theorem getCollidingIds_member:
  assumes d: "distinct (map fid fs)" and xin: "x \<in> set fs"
  shows "fid x \<in> getCollidingIds fs \<longleftrightarrow> (\<exists>y \<in> set fs. y \<noteq> x \<and> checkCollision x y)"
proof
  assume "fid x \<in> getCollidingIds fs"
  then obtain i j where ij: "i < j" "j < length fs" "checkCollision (fs ! i) (fs ! j)"
    and s: "fid x = fid (fs ! i) \<or> fid x = fid (fs ! j)"
    unfolding mem_getCollidingIds by blast
  have inj: "inj_on fid (set fs)" using d by (simp add: distinct_map)
  have dfs: "distinct fs" using d by (simp add: distinct_map)
  have ne: "fs ! i \<noteq> fs ! j" using dfs ij by (simp add: nth_eq_iff_index_eq)
  from s show "\<exists>y \<in> set fs. y \<noteq> x \<and> checkCollision x y"
  proof
    assume "fid x = fid (fs ! i)"
    then have "x = fs ! i" using inj xin ij by (auto dest: inj_onD)
    then show ?thesis using ij ne by (intro bexI[of _ "fs ! j"]) auto
  next
    assume "fid x = fid (fs ! j)"
    then have "x = fs ! j" using inj xin ij by (auto dest: inj_onD)
    then show ?thesis using ij ne checkCollision_commute[of "fs ! i" "fs ! j"]
      by (intro bexI[of _ "fs ! i"]) auto
  qed
next
  assume "\<exists>y \<in> set fs. y \<noteq> x \<and> checkCollision x y"
  then obtain y where y: "y \<in> set fs" "y \<noteq> x" "checkCollision x y" by blast
  obtain m where m: "m < length fs" "fs ! m = x" using xin by (auto simp: in_set_conv_nth)
  obtain k where k: "k < length fs" "fs ! k = y" using y by (auto simp: in_set_conv_nth)
  have "m \<noteq> k" using m k y by auto
  then consider "m < k" | "k < m" by linarith
  then show "fid x \<in> getCollidingIds fs"
  proof cases
    case 1
    then show ?thesis unfolding mem_getCollidingIds using m k y by blast
  next
    case 2
    moreover have "checkCollision (fs ! k) (fs ! m)"
      using y m k checkCollision_commute[of y x] by simp
    ultimately show ?thesis unfolding mem_getCollidingIds using m k by blast
  qed
qed

subsection \<open>C10: the collision test does not read \<open>position[1]\<close>\<close>

lemma getFootprint_with_position_y: "getFootprint (with_position_y v f) = getFootprint f"
  by (simp add: getFootprint_def with_position_y_def split: prod.splits)

lemma checkCollision_with_position_y:
  "checkCollision (with_position_y v a) (with_position_y u b) = checkCollision a b"
  by (simp add: checkCollision_def getFootprint_with_position_y)
     (simp add: with_position_y_def split: prod.splits)

lemma fid_with_position_y: "fid (with_position_y v f) = fid f"
  by (simp add: with_position_y_def split: prod.splits)

text \<open>
  Claim C10. Replacing \<open>position[1]\<close> of either box by any value leaves \<open>checkCollision\<close>
  unchanged, and replacing it in every item of a list (by a value chosen per index) leaves
  \<open>getCollidingIds\<close> unchanged.
\<close>

theorem position_y_noninterference:
  "checkCollision (with_position_y v a) b = checkCollision a b
   \<and> checkCollision a (with_position_y v b) = checkCollision a b
   \<and> getCollidingIds (map (\<lambda>i. with_position_y (vs i) (fs ! i)) [0..<length fs])
       = getCollidingIds fs"
proof (intro conjI)
  have id: "with_position_y (fst (snd (position f))) f = f" for f
    by (simp add: with_position_y_def split: prod.splits)
  show "checkCollision (with_position_y v a) b = checkCollision a b"
    using checkCollision_with_position_y[of v a "fst (snd (position b))" b] by (simp add: id)
  show "checkCollision a (with_position_y v b) = checkCollision a b"
    using checkCollision_with_position_y[of "fst (snd (position a))" a v b] by (simp add: id)
  show "getCollidingIds (map (\<lambda>i. with_position_y (vs i) (fs ! i)) [0..<length fs])
       = getCollidingIds fs"
    by (rule set_eqI)
       (simp add: mem_getCollidingIds checkCollision_with_position_y fid_with_position_y
          cong: conj_cong)
qed

subsection \<open>C9: column edge placement\<close>

text \<open>
  Claim C9. For a horizontal wall \<open>columnEdgeCenter\<close> keeps X and moves Y by \<open>depth/2\<close>, to
  \<open>canvasY + depth/2\<close> when the cursor's Y is at least the wall's Y and to
  \<open>canvasY - depth/2\<close> otherwise; for a vertical wall it does the same to X with the cursor's
  X and keeps Y.
\<close>

theorem columnEdgeCenter_offset:
  "(wallAxis wall = H \<longrightarrow>
      columnEdgeCenter cursor wall depthPx =
        \<lparr>canvasX = canvasX wall,
         canvasY = (if cur_cy cursor \<ge> canvasY wall then canvasY wall + depthPx / 2
                    else canvasY wall - depthPx / 2)\<rparr>)
   \<and> (wallAxis wall = V \<longrightarrow>
      columnEdgeCenter cursor wall depthPx =
        \<lparr>canvasX = (if cur_cx cursor \<ge> canvasX wall then canvasX wall + depthPx / 2
                    else canvasX wall - depthPx / 2),
         canvasY = canvasY wall\<rparr>)"
  by (simp add: columnEdgeCenter_def Let_def)

theorem columnEdgeCenter_offset_witness:
  "wallAxis \<lparr>canvasX = 50, canvasY = 0, wallAxis = H\<rparr> = H
   \<and> columnEdgeCenter \<lparr>cur_cx = 40, cur_cy = 3\<rparr> \<lparr>canvasX = 50, canvasY = 0, wallAxis = H\<rparr> 20
       = \<lparr>canvasX = 50, canvasY = 10\<rparr>
   \<and> wallAxis \<lparr>canvasX = 50, canvasY = 0, wallAxis = V\<rparr> = V
   \<and> columnEdgeCenter \<lparr>cur_cx = 40, cur_cy = 3\<rparr> \<lparr>canvasX = 50, canvasY = 0, wallAxis = V\<rparr> 20
       = \<lparr>canvasX = 40, canvasY = 0\<rparr>"
  using columnEdgeCenter_offset[of "\<lparr>canvasX = 50, canvasY = 0, wallAxis = H\<rparr>" "\<lparr>cur_cx = 40, cur_cy = 3\<rparr>" 20]
    columnEdgeCenter_offset[of "\<lparr>canvasX = 50, canvasY = 0, wallAxis = V\<rparr>" "\<lparr>cur_cx = 40, cur_cy = 3\<rparr>" 20]
  by simp

subsection \<open>C7 and C8: the nearest wall\<close>

lemma fold_segs_flat:
  "fold (\<lambda>room st. fold f (segs room) st) rooms st = fold f (concat (map segs rooms)) st"
  by (induction rooms arbitrary: st) simp_all

lemma findNearestWall_flat:
  "findNearestWall rooms px py snapDist = fst (fold (seg_step px py) (all_segs rooms) (None, snapDist))"
  by (simp add: findNearestWall_def all_segs_def fold_segs_flat)

lemma seg_step_cases:
  "seg_step px py seg (b, d) =
     (if lenSq seg \<noteq> 0 \<and> seg_dist px py seg < d then (Some (hit_of px py seg), seg_dist px py seg)
      else (b, d))"
  by (simp add: seg_step_def hit_of_def Let_def)

lemma fold_seg_step:
  "\<exists>b' d'. fold (seg_step px py) ss (b, d) = (b', d')
     \<and> d' \<le> d
     \<and> (\<forall>c \<in> set ss. lenSq c \<noteq> 0 \<longrightarrow> d' \<le> seg_dist px py c)
     \<and> ((b' = b \<and> d' = d) \<or>
         (\<exists>c \<in> set ss. lenSq c \<noteq> 0 \<and> b' = Some (hit_of px py c) \<and> d' = seg_dist px py c \<and> d' < d))"
proof (induction ss arbitrary: b d)
  case Nil
  then show ?case by simp
next
  case (Cons s ss)
  show ?case
  proof (cases "lenSq s \<noteq> 0 \<and> seg_dist px py s < d")
    case True
    from Cons.IH[of "Some (hit_of px py s)" "seg_dist px py s"]
    obtain b' d' where r: "fold (seg_step px py) ss (Some (hit_of px py s), seg_dist px py s) = (b', d')"
      "d' \<le> seg_dist px py s"
      "\<forall>c \<in> set ss. lenSq c \<noteq> 0 \<longrightarrow> d' \<le> seg_dist px py c"
      "(b' = Some (hit_of px py s) \<and> d' = seg_dist px py s) \<or>
         (\<exists>c \<in> set ss. lenSq c \<noteq> 0 \<and> b' = Some (hit_of px py c) \<and> d' = seg_dist px py c
            \<and> d' < seg_dist px py s)"
      by blast
    have "fold (seg_step px py) (s # ss) (b, d) = (b', d')"
      using True r(1) by (simp add: seg_step_cases)
    moreover have "d' \<le> d" using r(2) True by linarith
    moreover have "\<forall>c \<in> set (s # ss). lenSq c \<noteq> 0 \<longrightarrow> d' \<le> seg_dist px py c"
      using r(2,3) by auto
    moreover have "\<exists>c \<in> set (s # ss). lenSq c \<noteq> 0 \<and> b' = Some (hit_of px py c) \<and> d' = seg_dist px py c \<and> d' < d"
      using r(2,4) True by auto
    ultimately show ?thesis by blast
  next
    case False
    from Cons.IH[of b d]
    obtain b' d' where r: "fold (seg_step px py) ss (b, d) = (b', d')"
      "d' \<le> d"
      "\<forall>c \<in> set ss. lenSq c \<noteq> 0 \<longrightarrow> d' \<le> seg_dist px py c"
      "(b' = b \<and> d' = d) \<or>
         (\<exists>c \<in> set ss. lenSq c \<noteq> 0 \<and> b' = Some (hit_of px py c) \<and> d' = seg_dist px py c \<and> d' < d)"
      by blast
    have "fold (seg_step px py) (s # ss) (b, d) = (b', d')"
      using False r(1) by (auto simp: seg_step_cases)
    moreover have "\<forall>c \<in> set (s # ss). lenSq c \<noteq> 0 \<longrightarrow> d' \<le> seg_dist px py c"
      using r(2,3) False by auto
    moreover have "(b' = b \<and> d' = d) \<or>
         (\<exists>c \<in> set (s # ss). lenSq c \<noteq> 0 \<and> b' = Some (hit_of px py c) \<and> d' = seg_dist px py c \<and> d' < d)"
      using r(4) by auto
    ultimately show ?thesis using r(2) by blast
  qed
qed

lemma findNearestWall_None_iff:
  "findNearestWall rooms px py snapDist = None \<longleftrightarrow>
     (\<forall>c \<in> set (all_segs rooms). lenSq c \<noteq> 0 \<longrightarrow> snapDist \<le> seg_dist px py c)"
proof -
  obtain b' d' where r: "fold (seg_step px py) (all_segs rooms) (None, snapDist) = (b', d')"
      "\<forall>c \<in> set (all_segs rooms). lenSq c \<noteq> 0 \<longrightarrow> d' \<le> seg_dist px py c"
      "(b' = None \<and> d' = snapDist) \<or>
         (\<exists>c \<in> set (all_segs rooms). lenSq c \<noteq> 0 \<and> b' = Some (hit_of px py c)
             \<and> d' = seg_dist px py c \<and> d' < snapDist)"
    using fold_seg_step[of px py "all_segs rooms" None snapDist] by blast
  have res: "findNearestWall rooms px py snapDist = b'"
    by (simp add: findNearestWall_flat r(1))
  show ?thesis
  proof
    assume "findNearestWall rooms px py snapDist = None"
    then have "b' = None \<and> d' = snapDist" using r(3) res by auto
    then show "\<forall>c \<in> set (all_segs rooms). lenSq c \<noteq> 0 \<longrightarrow> snapDist \<le> seg_dist px py c"
      using r(2) by simp
  next
    assume a: "\<forall>c \<in> set (all_segs rooms). lenSq c \<noteq> 0 \<longrightarrow> snapDist \<le> seg_dist px py c"
    have "\<not> (\<exists>c \<in> set (all_segs rooms). lenSq c \<noteq> 0 \<and> b' = Some (hit_of px py c)
             \<and> d' = seg_dist px py c \<and> d' < snapDist)"
      using a by force
    then show "findNearestWall rooms px py snapDist = None" using r(3) res by blast
  qed
qed





subsection \<open>Evaluating the wall snap on concrete inputs\<close>

lemma hypot_0_left: "hypot 0 b = \<bar>b\<bar>"
  by (simp add: hypot_def)

lemma hypot_0_right: "hypot a 0 = \<bar>a\<bar>"
  by (simp add: hypot_def)

lemma hypot_ge_left: "\<bar>a\<bar> \<le> hypot a b"
proof -
  have "sqrt (a * a) \<le> sqrt (a * a + b * b)" by (rule real_sqrt_le_mono) simp
  then show ?thesis by (simp add: hypot_def)
qed

lemma hypot_not_less: "d \<le> \<bar>a\<bar> \<Longrightarrow> (hypot a b < d) = False"
  using hypot_ge_left[of a b] by auto




lemmas snap_eval = findNearestWall_def segs_def seg_step_def seg_dist_def seg_point_def seg_t_def
  lenSq_def Let_def hypot_0_left hypot_0_right hypot_not_less

lemma snap_50_2: "findNearestWall [room0] 50 2 14 = Some \<lparr>canvasX = 50, canvasY = 0, wallAxis = H\<rparr>"
  by (simp add: snap_eval room0_def)

lemma snap_50_10: "findNearestWall [room0] 50 10 14 = Some \<lparr>canvasX = 50, canvasY = 0, wallAxis = H\<rparr>"
  by (simp add: snap_eval room0_def)

text \<open>
  Claim C8 as stated fails: with the room \<open>(0, 0, 100, 100)\<close>, the point \<open>(50, 14)\<close> and
  \<open>maxDistance = 14\<close> the top wall has its clamped closest point at distance exactly 14,
  and the result is null, because the loop keeps a candidate only when \<open>d < bestDist\<close>.
\<close>

theorem findNearestWall_exact_distance_counterexample:
  "findNearestWall [room0] 50 14 14 = None
   \<and> hd (segs room0) \<in> set (segs room0)
   \<and> lenSq (hd (segs room0)) \<noteq> 0
   \<and> seg_dist 50 14 (hd (segs room0)) = 14"
  by (simp add: snap_eval room0_def)

text \<open>
  Claim C8, amended. \<open>findNearestWall\<close> returns null exactly when no segment of non-zero
  length has its clamped closest point at a distance strictly below \<open>maxDistance\<close>; for the
  empty room list it returns null.
\<close>

theorem findNearestWall_null_iff:
  "(findNearestWall rooms px py maxDistance = None \<longleftrightarrow>
      (\<forall>room \<in> set rooms. \<forall>seg \<in> set (segs room).
          lenSq seg \<noteq> 0 \<longrightarrow> maxDistance \<le> seg_dist px py seg))
   \<and> findNearestWall [] px py maxDistance = None"
  by (auto simp: findNearestWall_None_iff all_segs_def)

theorem findNearestWall_null_iff_witness:
  "hd (segs room0) \<in> set (segs room0)
   \<and> lenSq (hd (segs room0)) \<noteq> 0
   \<and> seg_dist 50 10 (hd (segs room0)) < 14
   \<and> findNearestWall [room0] 50 10 14 \<noteq> None
   \<and> map (seg_dist 50 14) (segs room0) = [14, 86, 50, 50]
   \<and> findNearestWall [room0] 50 14 14 = None"
proof -
  have a: "hd (segs room0) \<in> set (segs room0)" "lenSq (hd (segs room0)) \<noteq> 0"
    "seg_dist 50 10 (hd (segs room0)) < 14"
    by (simp_all add: snap_eval room0_def)
  have b: "map (seg_dist 50 14) (segs room0) = [14, 86, 50, 50]"
    by (simp add: snap_eval room0_def)
  have "\<forall>d \<in> set (map (seg_dist 50 14) (segs room0)). 14 \<le> d"
    unfolding b by simp
  then have c: "\<forall>seg \<in> set (segs room0). lenSq seg \<noteq> 0 \<longrightarrow> 14 \<le> seg_dist 50 14 seg"
    by simp
  have "findNearestWall [room0] 50 10 14 \<noteq> None"
    using findNearestWall_null_iff[of "[room0]" 50 10 14] a by force
  moreover have "findNearestWall [room0] 50 14 14 = None"
    using findNearestWall_null_iff[of "[room0]" 50 14 14] c by simp
  ultimately show ?thesis using a b by blast
qed



lemma sat_5: "\<not> sat2D (getFootprint boxA) (getFootprint (boxAt i 5 e))"
  unfolding fp_boxA fp_boxAt by code_simp

theorem getCollidingIds_member_witness:
  "distinct (map fid boxes3) \<and> boxA \<in> set boxes3 \<and> boxAt ''c'' 5 0 \<in> set boxes3
   \<and> fid boxA \<in> getCollidingIds boxes3"
proof -
  have d: "distinct (map fid boxes3)" by (simp add: boxes3_def boxA_def boxAt_def)
  have m: "boxA \<in> set boxes3" "boxAt ''b'' 1 0 \<in> set boxes3" "boxAt ''c'' 5 0 \<in> set boxes3"
    by (simp_all add: boxes3_def)
  have ne: "boxAt ''b'' 1 0 \<noteq> boxA" by (simp add: boxA_def boxAt_def)
  have "fid boxA \<in> getCollidingIds boxes3"
    using getCollidingIds_member[OF d m(1)] m(2) ne collide_1 by blast
  then show ?thesis using d m by simp
qed

section \<open>Raster analyzer: properties\<close>

subsection \<open>Reading grids and pixel buffers\<close>

lemma length_grid [simp]: "length (grid w h f) = w * h"
  by (simp add: grid_def)

lemma nth_grid: "k < w * h \<Longrightarrow> grid w h f ! k = f (int (k mod w)) (int (k div w))"
  by (simp add: grid_def)

lemma arr_get_grid:
  "arr_get (grid w h f) k =
     (if 0 \<le> k \<and> k < int (w * h) then Some (f (k mod int w) (k div int w)) else None)"
proof (cases "0 \<le> k \<and> k < int (w * h)")
  case True
  then have "nat k < w * h" by linarith
  moreover have "int (nat k mod w) = k mod int w" "int (nat k div w) = k div int w"
    using True by (simp_all add: zmod_int zdiv_int)
  ultimately show ?thesis using True by (simp add: arr_get_def nth_grid)
next
  case False
  then show ?thesis by (auto simp: arr_get_def)
qed

lemma index_bounds:
  assumes "0 \<le> x" "x < int w" "0 \<le> y" "y < int h"
  shows "0 \<le> y * int w + x" "y * int w + x < int (w * h)"
    "(y * int w + x) mod int w = x" "(y * int w + x) div int w = y"
proof -
  show "0 \<le> y * int w + x" using assms by simp
  have "y * int w + x < y * int w + int w" using assms by simp
  also have "\<dots> = (y + 1) * int w" by (simp add: algebra_simps)
  also have "\<dots> \<le> int h * int w" using assms by (intro mult_right_mono) auto
  finally show "y * int w + x < int (w * h)" by (simp add: mult.commute)
  show "(y * int w + x) mod int w = x" using assms by simp
  show "(y * int w + x) div int w = y" using assms by simp
qed

lemma arr_get_grid_xy:
  "0 \<le> x \<Longrightarrow> x < int w \<Longrightarrow> 0 \<le> y \<Longrightarrow> y < int h \<Longrightarrow>
     arr_get (grid w h f) (y * int w + x) = Some (f x y)"
  using index_bounds[of x w y h] by (simp add: arr_get_grid)

lemma grid_cong:
  assumes "\<And>x y. 0 \<le> x \<Longrightarrow> x < int w \<Longrightarrow> 0 \<le> y \<Longrightarrow> y < int h \<Longrightarrow> f x y = g x y"
  shows "grid w h f = grid w h g"
proof -
  have "f (int (i mod w)) (int (i div w)) = g (int (i mod w)) (int (i div w))" if "i < w * h" for i
  proof -
    have w: "0 < w" using that by (cases w) auto
    have "i div w < h" using that w by (simp add: less_mult_imp_div_less mult.commute)
    then show ?thesis using w by (intro assms) auto
  qed
  then show ?thesis by (simp add: grid_def)
qed

lemma nth_concat4:
  assumes "\<And>i. i < n \<Longrightarrow> length (f i) = 4"
  shows "length (concat (map f [0..<n])) = 4 * n
    \<and> (\<forall>i c. i < n \<longrightarrow> c < 4 \<longrightarrow> concat (map f [0..<n]) ! (4 * i + c) = f i ! c)"
  using assms
proof (induction n)
  case 0
  then show ?case by simp
next
  case (Suc n)
  then have IH: "length (concat (map f [0..<n])) = 4 * n"
    "\<And>i c. i < n \<Longrightarrow> c < 4 \<Longrightarrow> concat (map f [0..<n]) ! (4 * i + c) = f i ! c"
    by auto
  have len: "length (f n) = 4" using Suc.prems by simp
  show ?case
  proof (intro conjI allI impI)
    show "length (concat (map f [0..<Suc n])) = 4 * Suc n" using IH(1) len by simp
  next
    fix i c assume ic: "i < Suc n" "c < (4::nat)"
    show "concat (map f [0..<Suc n]) ! (4 * i + c) = f i ! c"
    proof (cases "i < n")
      case True
      then have "4 * i + c < 4 * n" using ic by linarith
      then show ?thesis using IH True ic by (simp add: nth_append)
    next
      case False
      then have "i = n" using ic by simp
      then show ?thesis using IH(1) by (simp add: nth_append)
    qed
  qed
qed

lemma binarize_px_raster:
  assumes "i < w * h"
  shows "binarize_px (raster w h px) i = luma_bin (px (int (i mod w)) (int (i div w)))"
proof -
  let ?f = "\<lambda>i. case px (int (i mod w)) (int (i div w)) of (r, g, b, a) \<Rightarrow> [r, g, b, a]"
  have l4: "\<And>i. i < w * h \<Longrightarrow> length (?f i) = 4" by (simp split: prod.splits)
  note n = nth_concat4[of "w * h" ?f, OF l4]
  have len: "length (raster w h px) = 4 * (w * h)" using n by (simp add: raster_def)
  have nth: "raster w h px ! (4 * i + c) = ?f i ! c" if "c < 4" for c
    using n assms that unfolding raster_def by blast
  have g: "arr_get (raster w h px) (int i * 4 + int c) = Some (?f i ! c)" if "c < 4" for c
  proof -
    have "nat (int i * 4 + int c) = 4 * i + c" by (simp add: nat_add_distrib nat_mult_distrib)
    moreover have "int i * 4 + int c < int (4 * (w * h))" using assms that by linarith
    ultimately show ?thesis using nth[OF that] by (simp add: arr_get_def len)
  qed
  obtain r g b a where p: "px (int (i mod w)) (int (i div w)) = (r, g, b, a)"
    by (cases "px (int (i mod w)) (int (i div w))") auto
  have "arr_get (raster w h px) (int i * 4) = Some r"
       "arr_get (raster w h px) (int i * 4 + 1) = Some g"
       "arr_get (raster w h px) (int i * 4 + 2) = Some b"
    using g[of 0] g[of 1] g[of 2] by (simp_all add: p)
  then show ?thesis by (simp add: binarize_px_def luma_bin_def p)
qed

lemma binarize_raster:
  "binarize w h (raster w h px) = grid w h (\<lambda>x y. luma_bin (px x y))"
  by (simp add: binarize_def grid_def binarize_px_raster)

subsection \<open>What the dilation computes\<close>

lemma length_arr_set [simp]: "length (arr_set a i v) = length a"
  by (simp add: arr_set_def)

lemma nth_arr_set:
  "k < length a \<Longrightarrow> arr_set a i v ! k = (if i = int k then v else a ! k)"
  by (auto simp: arr_set_def nth_list_update)

lemma fold_paint:
  assumes "\<And>p dst. p \<in> set ps \<Longrightarrow> length (F p dst) = length dst"
    and "\<And>p dst k. p \<in> set ps \<Longrightarrow> k < length dst \<Longrightarrow> F p dst ! k = (if C p k then v else dst ! k)"
  shows "length (fold F ps dst) = length dst
    \<and> (\<forall>k < length dst. fold F ps dst ! k = (if \<exists>p \<in> set ps. C p k then v else dst ! k))"
  using assms
proof (induction ps arbitrary: dst)
  case Nil
  then show ?case by simp
next
  case (Cons p ps)
  have l: "length (F p dst) = length dst" using Cons.prems(1) by simp
  have IH: "length (fold F ps (F p dst)) = length (F p dst)
    \<and> (\<forall>k < length (F p dst). fold F ps (F p dst) ! k = (if \<exists>p \<in> set ps. C p k then v else F p dst ! k))"
    by (rule Cons.IH) (use Cons.prems in auto)
  show ?case
  proof (intro conjI allI impI)
    show "length (fold F (p # ps) dst) = length dst" using IH l by simp
  next
    fix k assume k: "k < length dst"
    have "F p dst ! k = (if C p k then v else dst ! k)" using Cons.prems(2) k by simp
    then show "fold F (p # ps) dst ! k = (if \<exists>p \<in> set (p # ps). C p k then v else dst ! k)"
      using IH l k by auto
  qed
qed

lemma fill_row:
  "length (fold (\<lambda>nx dst. arr_set dst (ny * int w + nx) v) xs dst) = length dst
    \<and> (\<forall>k < length dst. fold (\<lambda>nx dst. arr_set dst (ny * int w + nx) v) xs dst ! k =
          (if \<exists>nx \<in> set xs. ny * int w + nx = int k then v else dst ! k))"
  by (rule fold_paint) (simp_all add: nth_arr_set)

lemma fill_rect:
  "length (fold (\<lambda>ny dst. fold (\<lambda>nx dst. arr_set dst (ny * int w + nx) v) xs dst) ys dst) = length dst
    \<and> (\<forall>k < length dst.
          fold (\<lambda>ny dst. fold (\<lambda>nx dst. arr_set dst (ny * int w + nx) v) xs dst) ys dst ! k =
          (if \<exists>ny \<in> set ys. \<exists>nx \<in> set xs. ny * int w + nx = int k then v else dst ! k))"
  by (rule fold_paint) (simp_all add: fill_row)

lemma dilate_at_paint:
  "length (dilate_at src w h radius y x dst) = length dst
    \<and> (\<forall>k < length dst. dilate_at src w h radius y x dst ! k =
          (if in_reach src w h radius y x k then WALL else dst ! k))"
  using fill_rect[of w WALL "[max 0 (x - radius)..min (int w - 1) (x + radius)]"
           "[max 0 (y - radius)..min (int h - 1) (y + radius)]" dst]
  by (simp add: dilate_at_def in_reach_def Let_def)

lemma dilate_row_paint:
  "length (fold (\<lambda>x dst. dilate_at src w h radius y x dst) xs dst) = length dst
    \<and> (\<forall>k < length dst. fold (\<lambda>x dst. dilate_at src w h radius y x dst) xs dst ! k =
          (if \<exists>x \<in> set xs. in_reach src w h radius y x k then WALL else dst ! k))"
  by (rule fold_paint) (simp_all add: dilate_at_paint)

lemma dilateWalls_paint:
  "length (dilateWalls src w h radius) = length src
    \<and> (\<forall>k < length src. dilateWalls src w h radius ! k =
          (if \<exists>y \<in> {0..int h - 1}. \<exists>x \<in> {0..int w - 1}. in_reach src w h radius y x k
           then WALL else src ! k))"
proof -
  have "length (fold (\<lambda>y dst. fold (\<lambda>x dst. dilate_at src w h radius y x dst) [0..int w - 1] dst)
                  [0..int h - 1] src) = length src
    \<and> (\<forall>k < length src.
          fold (\<lambda>y dst. fold (\<lambda>x dst. dilate_at src w h radius y x dst) [0..int w - 1] dst)
            [0..int h - 1] src ! k =
          (if \<exists>y \<in> set [0..int h - 1]. \<exists>x \<in> set [0..int w - 1]. in_reach src w h radius y x k
           then WALL else src ! k))"
    by (rule fold_paint) (simp_all add: dilate_row_paint del: set_upto)
  then show ?thesis by (simp add: dilateWalls_def)
qed

lemma dilateWalls_grid:
  "dilateWalls (grid w h f) w h radius =
     grid w h (\<lambda>x y. if near_wall w h f radius x y then WALL else f x y)"
proof (rule nth_equalityI)
  show "length (dilateWalls (grid w h f) w h radius) =
        length (grid w h (\<lambda>x y. if near_wall w h f radius x y then WALL else f x y))"
    using dilateWalls_paint[of "grid w h f" w h radius] by simp
next
  fix k assume "k < length (dilateWalls (grid w h f) w h radius)"
  then have k: "k < w * h" using dilateWalls_paint[of "grid w h f" w h radius] by simp
  then have w: "0 < w" by (cases w) auto
  define x y where "x = int (k mod w)" and "y = int (k div w)"
  have xy: "0 \<le> x" "x < int w" "0 \<le> y" "y < int h"
    using k w by (simp_all add: x_def y_def less_mult_imp_div_less mult.commute)
  have kxy: "int k = y * int w + x"
    by (simp add: x_def y_def flip: of_nat_mult of_nat_add)
  have uniq: "ny * int w + nx = int k \<longleftrightarrow> ny = y \<and> nx = x" if "0 \<le> nx" "nx < int w" for nx ny
  proof
    assume e: "ny * int w + nx = int k"
    have "(ny * int w + nx) mod int w = nx" "(ny * int w + nx) div int w = ny"
      using that by simp_all
    moreover have "(y * int w + x) mod int w = x" "(y * int w + x) div int w = y"
      using xy by simp_all
    ultimately show "ny = y \<and> nx = x" using e kxy by metis
  qed (simp add: kxy)
  have "(\<exists>y' \<in> {0..int h - 1}. \<exists>x' \<in> {0..int w - 1}. in_reach (grid w h f) w h radius y' x' k)
      \<longleftrightarrow> near_wall w h f radius x y" (is "?L \<longleftrightarrow> ?R")
  proof
    assume ?L
    then obtain y' x' ny nx where a: "0 \<le> y'" "y' \<le> int h - 1" "0 \<le> x'" "x' \<le> int w - 1"
      "arr_get (grid w h f) (y' * int w + x') = Some WALL"
      "max 0 (y' - radius) \<le> ny" "ny \<le> min (int h - 1) (y' + radius)"
      "max 0 (x' - radius) \<le> nx" "nx \<le> min (int w - 1) (x' + radius)"
      "ny * int w + nx = int k"
      unfolding in_reach_def by auto
    have "ny = y \<and> nx = x" using uniq[of nx ny] a by simp
    moreover have "f x' y' = WALL" using a(1-5) by (simp add: arr_get_grid_xy)
    ultimately show ?R unfolding near_wall_def using a by (intro exI[of _ x'] exI[of _ y']) auto
  next
    assume ?R
    then obtain x' y' where a: "0 \<le> x'" "x' < int w" "0 \<le> y'" "y' < int h" "f x' y' = WALL"
      "\<bar>x' - x\<bar> \<le> radius" "\<bar>y' - y\<bar> \<le> radius"
      unfolding near_wall_def by blast
    have g: "arr_get (grid w h f) (y' * int w + x') = Some WALL"
      using a by (simp add: arr_get_grid_xy)
    have yin: "y \<in> {max 0 (y' - radius)..min (int h - 1) (y' + radius)}"
      using a xy by auto
    have xin: "x \<in> {max 0 (x' - radius)..min (int w - 1) (x' + radius)}"
      using a xy by auto
    have "in_reach (grid w h f) w h radius y' x' k"
      unfolding in_reach_def using g yin xin kxy[symmetric] by blast
    then show ?L using a by (intro bexI[of _ y'] bexI[of _ x']) auto
  qed
  then show "dilateWalls (grid w h f) w h radius ! k =
        grid w h (\<lambda>x y. if near_wall w h f radius x y then WALL else f x y) ! k"
    using dilateWalls_paint[of "grid w h f" w h radius] k
    by (simp add: nth_grid x_def y_def)
qed

subsection \<open>Flood fill of a grid with a closed border\<close>

declare flood.simps [simp del]

lemma enqueueEdge_mark: "enqueueEdge w ex ey st = mark st (ey * int w + ex)"
  by (cases st) (simp add: enqueueEdge_def mark_def Let_def)


lemma arr_get_Nil [simp]: "arr_get [] i = None"
  by (auto simp: arr_get_def)

lemma fold_fixed: "(\<And>a. a \<in> set as \<Longrightarrow> f a s = s) \<Longrightarrow> fold f as s = s"
  by (induction as) simp_all

lemma mark_fixed: "arr_get (fst st) idx \<noteq> Some OPEN \<Longrightarrow> mark st idx = st"
  by (simp add: mark_def)

text \<open>A grid whose border holds no open cell is left alone by the flood fill.\<close>

lemma seed_edges_closed_border:
  assumes "\<And>ex. 0 \<le> ex \<Longrightarrow> ex < int w \<Longrightarrow> arr_get l (0 * int w + ex) \<noteq> Some OPEN"
    and "\<And>ex. 0 \<le> ex \<Longrightarrow> ex < int w \<Longrightarrow> arr_get l ((int h - 1) * int w + ex) \<noteq> Some OPEN"
    and "\<And>ey. 1 \<le> ey \<Longrightarrow> ey \<le> int h - 2 \<Longrightarrow> arr_get l (ey * int w + 0) \<noteq> Some OPEN"
    and "\<And>ey. 1 \<le> ey \<Longrightarrow> ey \<le> int h - 2 \<Longrightarrow> arr_get l (ey * int w + (int w - 1)) \<noteq> Some OPEN"
  shows "seed_edges w h l = (l, [])"
proof -
  have 1: "fold (\<lambda>ex st. enqueueEdge w ex (int h - 1) (enqueueEdge w ex 0 st)) [0..int w - 1] (l, [])
        = (l, [])"
    by (rule fold_fixed) (use assms(1,2) in \<open>simp add: enqueueEdge_mark mark_fixed\<close>)
  have 2: "fold (\<lambda>ey st. enqueueEdge w (int w - 1) ey (enqueueEdge w 0 ey st)) [1..int h - 2] (l, [])
        = (l, [])"
    by (rule fold_fixed) (use assms(3,4) in \<open>simp add: enqueueEdge_mark mark_fixed\<close>)
  show ?thesis by (simp add: seed_edges_def 1 2)
qed

lemma floodFill_closed_border:
  assumes "\<And>ex. 0 \<le> ex \<Longrightarrow> ex < int w \<Longrightarrow> arr_get l (0 * int w + ex) \<noteq> Some OPEN"
    and "\<And>ex. 0 \<le> ex \<Longrightarrow> ex < int w \<Longrightarrow> arr_get l ((int h - 1) * int w + ex) \<noteq> Some OPEN"
    and "\<And>ey. 1 \<le> ey \<Longrightarrow> ey \<le> int h - 2 \<Longrightarrow> arr_get l (ey * int w + 0) \<noteq> Some OPEN"
    and "\<And>ey. 1 \<le> ey \<Longrightarrow> ey \<le> int h - 2 \<Longrightarrow> arr_get l (ey * int w + (int w - 1)) \<noteq> Some OPEN"
  shows "floodFill w h l = l"
  using seed_edges_closed_border[of w l h, OF assms]
  by (simp add: floodFill_def flood.simps[of w h l "[]" 0])

lemma floodFill_grid_closed_border:
  assumes "\<And>x y. 0 \<le> x \<Longrightarrow> x < int w \<Longrightarrow> 0 \<le> y \<Longrightarrow> y < int h \<Longrightarrow>
             x = 0 \<or> x = int w - 1 \<or> y = 0 \<or> y = int h - 1 \<Longrightarrow> f x y \<noteq> OPEN"
  shows "floodFill w h (grid w h f) = grid w h f"
proof (cases "w = 0 \<or> h = 0")
  case True
  then have e: "grid w h f = []" by (auto simp: grid_def)
  have "floodFill w h [] = []"
    by (rule floodFill_closed_border) simp_all
  then show ?thesis by (simp add: e)
next
  case False
  then have wh: "0 < w" "0 < h" by auto
  show ?thesis
  proof (rule floodFill_closed_border)
    fix ex :: int assume "0 \<le> ex" "ex < int w"
    then show "arr_get (grid w h f) (0 * int w + ex) \<noteq> Some OPEN"
      using arr_get_grid_xy[of ex w 0 h f] assms[of ex 0] wh by simp
  next
    fix ex :: int assume "0 \<le> ex" "ex < int w"
    then show "arr_get (grid w h f) ((int h - 1) * int w + ex) \<noteq> Some OPEN"
      using arr_get_grid_xy[of ex w "int h - 1" h f] assms[of ex "int h - 1"] wh by simp
  next
    fix ey :: int assume "1 \<le> ey" "ey \<le> int h - 2"
    then show "arr_get (grid w h f) (ey * int w + 0) \<noteq> Some OPEN"
      using arr_get_grid_xy[of 0 w ey h f] assms[of 0 ey] wh by simp
  next
    fix ey :: int assume "1 \<le> ey" "ey \<le> int h - 2"
    then show "arr_get (grid w h f) (ey * int w + (int w - 1)) \<noteq> Some OPEN"
      using arr_get_grid_xy[of "int w - 1" w ey h f] assms[of "int w - 1" ey] wh by simp
  qed
qed

subsection \<open>The first scenario, stage by stage\<close>

lemma cells_distinct [simp]: "OPEN \<noteq> WALL" "WALL \<noteq> OPEN" "OPEN \<noteq> EXTERIOR" "EXTERIOR \<noteq> OPEN"
  "WALL \<noteq> EXTERIOR" "EXTERIOR \<noteq> WALL"
  by (simp_all add: OPEN_def WALL_def EXTERIOR_def)

lemma bin15: "binarize 15 16 (raster 15 16 px15) = grid 15 16 f15"
  unfolding binarize_raster
  by (rule grid_cong) (simp add: px15_def f15_def luma_bin_def WALL_THRESHOLD_def)

lemma f15_wall: "f15 x y = WALL \<longleftrightarrow> (x = 0 \<or> x = 14 \<or> y = 0 \<or> y = 15)"
  by (simp add: f15_def)

lemma near15:
  assumes "0 \<le> x" "x < 15" "0 \<le> y" "y < 16"
  shows "near_wall 15 16 f15 6 x y \<longleftrightarrow> \<not> (x = 7 \<and> (y = 7 \<or> y = 8))"
proof -
  have "near_wall 15 16 f15 6 x y \<longleftrightarrow>
    (\<exists>x' y'. 0 \<le> x' \<and> x' < 15 \<and> 0 \<le> y' \<and> y' < 16 \<and> (x' = 0 \<or> x' = 14 \<or> y' = 0 \<or> y' = 15)
         \<and> \<bar>x' - x\<bar> \<le> 6 \<and> \<bar>y' - y\<bar> \<le> 6)"
    by (simp only: near_wall_def f15_wall of_nat_numeral)
  also have "\<dots> \<longleftrightarrow> \<not> (x = 7 \<and> (y = 7 \<or> y = 8))"
    using assms by presburger
  finally show ?thesis .
qed

lemma dil15: "dilateWalls (grid 15 16 f15) 15 16 6 = grid 15 16 g15"
  unfolding dilateWalls_grid
  by (rule grid_cong) (simp add: near15, simp add: f15_def g15_def)

lemma sum15: "sum_list (grid 15 16 f15) = 182"
  unfolding grid_def f15_def OPEN_def WALL_def by code_simp

subsection \<open>Scanning for components\<close>

lemma arr_get_arr_set:
  "arr_get (arr_set a i v) k = (if k = i \<and> 0 \<le> i \<and> i < int (length a) then Some v else arr_get a k)"
  by (auto simp: arr_get_def arr_set_def nth_list_update)

lemma arr_get_replicate:
  "arr_get (replicate n v) k = (if 0 \<le> k \<and> k < int n then Some v else None)"
  by (auto simp: arr_get_def)

lemma region_bfs_step:
  "qHead r < length (regionQueue r) \<Longrightarrow>
     region_bfs w h labeled r =
       (let curr = regionQueue r ! qHead r;
            px = int (curr mod w);
            py = int (curr div w);
            st = fold (region_neighbour w h labeled px py) directions (visited r, regionQueue r)
        in region_bfs w h labeled
             \<lparr>visited = fst st, regionQueue = snd st, qHead = qHead r + 1,
              minX = (if px < minX r then px else minX r),
              maxX = (if px > maxX r then px else maxX r),
              minY = (if py < minY r then py else minY r),
              maxY = (if py > maxY r then py else maxY r),
              area = area r + 1\<rparr>)"
  by (subst region_bfs.simps) simp

lemma region_bfs_done:
  "\<not> qHead r < length (regionQueue r) \<Longrightarrow> region_bfs w h labeled r = Some r"
  by (subst region_bfs.simps) simp

lemma fold_option_fixed:
  "(\<And>a. a \<in> set as \<Longrightarrow> f a s = Some s) \<Longrightarrow> fold_option f as s = Some s"
  by (induction as) simp_all

lemma fold_option_append:
  "fold_option f (as @ bs) s =
     (case fold_option f as s of None \<Rightarrow> None | Some s' \<Rightarrow> fold_option f bs s')"
  by (induction as arbitrary: s) (simp_all split: option.splits)

lemma scan_start_skip:
  "arr_get labeled (startY * int w + startX) \<noteq> Some OPEN
     \<or> \<not> falsy (arr_get vis (startY * int w + startX)) \<Longrightarrow>
   scan_start randomUUID w h cw ch labeled startY startX (vis, rooms, c) = Some (vis, rooms, c)"
  by (auto simp: scan_start_def Let_def)

lemma scan_row_skip:
  assumes "0 \<le> sy" "sy < int h"
    and "\<And>sx. sx \<in> set xs \<Longrightarrow>
           0 \<le> sx \<and> sx < int w \<and> (g sx sy \<noteq> OPEN \<or> \<not> falsy (arr_get vis (sy * int w + sx)))"
  shows "fold_option (scan_start randomUUID w h cw ch (grid w h g) sy) xs (vis, rooms, c)
           = Some (vis, rooms, c)"
proof (rule fold_option_fixed)
  fix sx assume "sx \<in> set xs"
  then have a: "0 \<le> sx" "sx < int w" "g sx sy \<noteq> OPEN \<or> \<not> falsy (arr_get vis (sy * int w + sx))"
    using assms(3) by auto
  show "scan_start randomUUID w h cw ch (grid w h g) sy sx (vis, rooms, c) = Some (vis, rooms, c)"
    by (rule scan_start_skip) (use a assms(1,2) in \<open>auto simp: arr_get_grid_xy\<close>)
qed

lemma scan_rows_skip:
  assumes "\<And>sy sx. sy \<in> set ys \<Longrightarrow> sx \<in> set xs \<Longrightarrow>
           0 \<le> sy \<and> sy < int h \<and> 0 \<le> sx \<and> sx < int w
           \<and> (g sx sy \<noteq> OPEN \<or> \<not> falsy (arr_get vis (sy * int w + sx)))"
  shows "fold_option
           (\<lambda>sy st. fold_option (scan_start randomUUID w h cw ch (grid w h g) sy) xs st)
           ys (vis, rooms, c) = Some (vis, rooms, c)"
proof (rule fold_option_fixed)
  fix sy assume sy: "sy \<in> set ys"
  show "fold_option (scan_start randomUUID w h cw ch (grid w h g) sy) xs (vis, rooms, c)
          = Some (vis, rooms, c)"
  proof (cases "xs = []")
    case True
    then show ?thesis by simp
  next
    case False
    then obtain sx where "sx \<in> set xs" by (cases xs) auto
    then have "0 \<le> sy" "sy < int h" using assms[OF sy] by auto
    then show ?thesis by (rule scan_row_skip) (use assms[OF sy] in auto)
  qed
qed

lemmas nb_eval = directions_def region_neighbour_def Let_def arr_get_grid falsy_def
  arr_get_arr_set arr_get_replicate

lemma arr_get_vis15a:
  "arr_get vis15a k = (if k = 112 then Some 1 else if 0 \<le> k \<and> k < 240 then Some 0 else None)"
  by (simp add: vis15a_def arr_get_arr_set arr_get_replicate)

lemma arr_get_vis15:
  "arr_get vis15 k =
     (if k = 127 \<or> k = 112 then Some 1 else if 0 \<le> k \<and> k < 240 then Some 0 else None)"
  by (simp add: vis15_def arr_get_arr_set arr_get_vis15a) (simp add: vis15a_def)

lemma vis15_fold: "arr_set vis15a 127 (Suc 0) = vis15" "arr_set (replicate 240 0) 112 (Suc 0) = vis15a"
  by (simp_all add: vis15_def vis15a_def)

lemma bfs15:
  "region_bfs 15 16 (grid 15 16 g15)
     \<lparr>visited = vis15a, regionQueue = [112], qHead = 0,
      minX = 7, maxX = 7, minY = 7, maxY = 7, area = 0\<rparr>
   = Some \<lparr>visited = vis15, regionQueue = [112, 127], qHead = 2,
           minX = 7, maxX = 7, minY = 7, maxY = 8, area = 2\<rparr>"
proof -
  let ?L = "grid 15 16 g15"
  have s1: "fold (region_neighbour 15 16 ?L 7 7) directions (vis15a, [112])
      = (vis15, [112, 127])"
    by (simp add: nb_eval g15_def arr_get_vis15a vis15_fold)
  have s2: "fold (region_neighbour 15 16 ?L 7 8) directions (vis15, [112, 127])
      = (vis15, [112, 127])"
    by (simp add: nb_eval g15_def arr_get_vis15)
  have "region_bfs 15 16 ?L
     \<lparr>visited = vis15a, regionQueue = [112], qHead = 0,
      minX = 7, maxX = 7, minY = 7, maxY = 7, area = 0\<rparr>
    = region_bfs 15 16 ?L
     \<lparr>visited = vis15, regionQueue = [112, 127], qHead = Suc 0,
      minX = 7, maxX = 7, minY = 7, maxY = 7, area = Suc 0\<rparr>"
    by (subst region_bfs_step) (simp_all add: s1)
  also have "\<dots> = region_bfs 15 16 ?L
     \<lparr>visited = vis15, regionQueue = [112, 127], qHead = 2,
      minX = 7, maxX = 7, minY = 7, maxY = 8, area = 2\<rparr>"
    by (subst region_bfs_step) (simp_all add: s2 numeral_2_eq_2)
  also have "\<dots> = Some \<lparr>visited = vis15, regionQueue = [112, 127], qHead = 2,
           minX = 7, maxX = 7, minY = 7, maxY = 8, area = 2\<rparr>"
    by (subst region_bfs_done) simp_all
  finally show ?thesis .
qed

lemma start15:
  "scan_start randomUUID 15 16 cw ch (grid 15 16 g15) 7 7 (replicate 240 0, [], 0)
     = Some (vis15, [room15 randomUUID cw ch], 1)"
proof -
  have o: "arr_get (grid 15 16 g15) (7 * int 15 + 7) = Some OPEN"
    by (simp add: arr_get_grid g15_def)
  have v: "falsy (arr_get (replicate 240 0) (7 * int 15 + 7))"
    by (simp add: arr_get_replicate falsy_def)
  have i: "nat (7 * int 15 + 7) = 112" by simp
  show ?thesis
    unfolding scan_start_def Let_def prod.case
    by (simp only: o v i, simp add: vis15_fold bfs15 MIN_AREA_RATIO_def ROOM_COLORS_def room15_def)
qed

lemma rooms15:
  "find_rooms randomUUID 15 16 cw ch (grid 15 16 g15) = Some [room15 randomUUID cw ch]"
proof -
  let ?row = "\<lambda>sy st. fold_option (scan_start randomUUID 15 16 cw ch (grid 15 16 g15) sy) [1..int 15 - 2] st"
  let ?S0 = "(replicate (15 * 16) 0, [], 0) :: nat list \<times> Room list \<times> nat"
  let ?S1 = "(vis15, [room15 randomUUID cw ch], 1) :: nat list \<times> Room list \<times> nat"
  have ys: "[1..int 16 - 2] = [1..6] @ 7 # [8..14]"
    using upto_split3[of 1 7 14] by simp
  have xs: "[1..int 15 - 2] = [1..6] @ 7 # [8..13]"
    using upto_split3[of 1 7 13] by simp
  have top: "fold_option ?row [1..6] ?S0 = Some ?S0"
    by (rule scan_rows_skip) (auto simp: g15_def)
  have r7a: "fold_option (scan_start randomUUID 15 16 cw ch (grid 15 16 g15) 7) [1..6] ?S0 = Some ?S0"
    by (rule scan_row_skip) (auto simp: g15_def)
  have r7c: "fold_option (scan_start randomUUID 15 16 cw ch (grid 15 16 g15) 7) [8..13] ?S1 = Some ?S1"
    by (rule scan_row_skip) (auto simp: g15_def)
  have r7: "?row 7 ?S0 = Some ?S1"
    unfolding xs fold_option_append using r7a r7c start15[of randomUUID cw ch] by simp
  have bot: "fold_option ?row [8..14] ?S1 = Some ?S1"
    by (rule scan_rows_skip)
       (auto simp: g15_def arr_get_vis15 falsy_def)
  have "fold_option ?row [1..int 16 - 2] ?S0 = Some ?S1"
    unfolding ys fold_option_append using top r7 bot by simp
  then show ?thesis by (simp add: find_rooms_def)
qed

subsection \<open>The analysis of the two scenarios\<close>

lemma polarity_keep:
  "real (w * h) * 0.3 \<le> real (sum_list binary) \<Longrightarrow> polarity w h binary = binary"
  by (simp add: polarity_def Let_def)

lemma analyze15:
  "analyzeFloorPlan randomUUID 15 16 (raster 15 16 px15) cw ch = Some [room15 randomUUID cw ch]"
proof -
  have p: "polarity 15 16 (grid 15 16 f15) = grid 15 16 f15"
    by (rule polarity_keep) (simp add: sum15)
  have f: "floodFill 15 16 (grid 15 16 g15) = grid 15 16 g15"
    by (rule floodFill_grid_closed_border) (auto simp: g15_def)
  show ?thesis
    by (simp add: analyzeFloorPlan_def bin15 p DILATE_RADIUS_def dil15 f rooms15)
qed













lemma length_vis18 [simp]: "length vis18a = 288" "length vis18b = 288" "length vis18 = 288"
  by (simp_all add: vis18a_def vis18b_def vis18_def)











text \<open>
  Claim C4, at the failing input. For the 15 by 16 image with a black border of one pixel
  and a white interior, and any canvas size, \<open>analyzeFloorPlan\<close> returns one room, and its
  width is 0: the dilated walls leave the single column \<open>x = 7\<close>, \<open>y = 7, 8\<close> open, and the
  width is computed as \<open>(maxX - minX) * scaleX\<close>.
\<close>

theorem analyzeFloorPlan_zero_width:
  "analyzeFloorPlan randomUUID 15 16 (raster 15 16 px15) cw ch = Some [room15 randomUUID cw ch]
   \<and> rwidth (room15 randomUUID cw ch) = 0"
  by (simp add: analyze15 room15_def)

subsection \<open>C5: polarity\<close>







lemma length_binarize [simp]: "length (binarize w h data) = w * h"
  by (simp add: binarize_def)






subsection \<open>C6: the flood fill of a grid without walls leaves no open cell\<close>





















subsection \<open>The analysis always returns\<close>







lemma length_polarity [simp]: "length (polarity w h B) = length B"
  by (simp add: polarity_def Let_def)







end
